theory Spec2Isabelle
  imports Complex_Main
begin

section \<open>The offline write queue of pizza-hunt (public/assets/js/idb.js)\<close>

text \<open>
  The script \<^verbatim>\<open>idb.js\<close> runs in a browser page. It keeps one module variable
  (\<^verbatim>\<open>let db\<close>), registers callbacks on an IndexedDB open request and on the window's
  \<^verbatim>\<open>online\<close> event, and exports \<^verbatim>\<open>saveRecord\<close>. Every function of the script is
  embedded below as a function on an explicit state; the browser's event loop is the
  function \<open>step\<close>, one event (one task of the loop) at a time.

  What the platform does is written out where the script depends on it:
  \<^item> IndexedDB requests are asynchronous. \<^verbatim>\<open>add\<close>, \<^verbatim>\<open>getAll\<close> and \<^verbatim>\<open>clear\<close> only place
    a request; the storage layer executes it in a later task. Every transaction of
    the script is \<^verbatim>\<open>readwrite\<close> on the one store \<^verbatim>\<open>new_pizza\<close> and carries one request,
    so the storage layer executes the requests in the order they were placed:
    the field \<open>pending\<close> is a first-in first-out queue.
  \<^item> \<^verbatim>\<open>fetch\<close> returns a promise that settles in a later task.
  \<^item> A page reload discards the script's variables, the requests not yet executed
    and the fetches in flight; the database itself is kept.
\<close>

subsection \<open>Values\<close>

text \<open>
  A parsed JSON value, as \<^verbatim>\<open>response.json()\<close> resolves to and as the form hands to
  \<^verbatim>\<open>saveRecord\<close>. An object is its list of own properties; a property is read with
  \<open>map_of\<close>. Numbers are the finite ones.
\<close>

datatype json =
    JNull
  | JBool bool
  | JNum rat
  | JStr string
  | JArr "json list"
  | JObj "(string \<times> json) list"

text \<open>What a script can throw or a promise can reject with.\<close>

datatype thrown =
    TypeError       \<comment> \<open>reading a property of \<^verbatim>\<open>undefined\<close> or \<^verbatim>\<open>null\<close>\<close>
  | NotFoundError   \<comment> \<open>\<^verbatim>\<open>db.transaction\<close> on a store that does not exist\<close>
  | SyntaxError     \<comment> \<open>\<^verbatim>\<open>response.json()\<close> on a body that is not JSON\<close>
  | FetchFailed     \<comment> \<open>\<^verbatim>\<open>fetch\<close> rejects: the request did not reach a server\<close>
  | Error json      \<comment> \<open>\<^verbatim>\<open>new Error(serverResponse)\<close>\<close>

datatype logged =
    Caught thrown   \<comment> \<open>\<^verbatim>\<open>console.log(err)\<close> of line 146\<close>
  | ErrorCode nat   \<comment> \<open>\<^verbatim>\<open>console.log(event.target.errorCode)\<close> of line 56\<close>

text \<open>A request placed on the object store and not yet executed.\<close>

datatype request = Add json | GetAll | Clear

text \<open>How a \<^verbatim>\<open>fetch\<close> settles: rejected, or a response with a status and a body.\<close>

datatype body = NotJson | Json json

datatype outcome = Rejected | Response nat body

text \<open>
  What the script does that can be seen from outside it, one entry per call:
  a request placed on the object store, a POST handed to \<^verbatim>\<open>fetch\<close> (by its body),
  a \<^verbatim>\<open>console.log\<close>, an \<^verbatim>\<open>alert\<close>, and an exception that left a callback or
  \<^verbatim>\<open>saveRecord\<close> uncaught.
\<close>

datatype action =
    Placed request
  | Fetched "json list"
  | Logged logged
  | Alerted string
  | Threw thrown

subsection \<open>State\<close>

record state =
  \<comment> \<open>the database \<^verbatim>\<open>pizza_hunt\<close>, kept across page loads\<close>
  created :: bool                    \<comment> \<open>the object store \<^verbatim>\<open>new_pizza\<close> exists (version 1)\<close>
  store :: "(nat \<times> json) list"       \<comment> \<open>its entries, key and value\<close>
  keygen :: nat                      \<comment> \<open>its key generator (\<^verbatim>\<open>autoIncrement\<close>)\<close>
  \<comment> \<open>the page\<close>
  db :: bool                         \<comment> \<open>\<^verbatim>\<open>let db\<close>: False while \<^verbatim>\<open>undefined\<close>\<close>
  connecting :: bool                 \<comment> \<open>the open request of line 18 has not completed\<close>
  pending :: "request list"          \<comment> \<open>requests placed, oldest first\<close>
  fetches :: "json list list"        \<comment> \<open>the POSTs in flight, by their bodies\<close>
  \<comment> \<open>the environment\<close>
  online :: bool                     \<comment> \<open>\<^verbatim>\<open>navigator.onLine\<close>\<close>
  \<comment> \<open>what the script has done so far, in program order\<close>
  trace :: "action list"

text \<open>The page as the script's top level leaves it on a browser with no database yet.\<close>

definition init :: state where
  "init = \<lparr> created = False, store = [], keygen = 1,
            db = False, connecting = True, pending = [], fetches = [],
            online = True, trace = [] \<rparr>"

definition emit :: "action \<Rightarrow> state \<Rightarrow> state" where
  "emit a s = s\<lparr>trace := trace s @ [a]\<rparr>"

text \<open>Placing a request: it joins the queue of the storage layer.\<close>

definition place :: "request \<Rightarrow> state \<Rightarrow> state" where
  "place q s = emit (Placed q) (s\<lparr>pending := pending s @ [q]\<rparr>)"

text \<open>The trace, read by kind.\<close>

fun posts_of :: "action list \<Rightarrow> json list list" where
  "posts_of [] = []"
| "posts_of (Fetched b # as) = b # posts_of as"
| "posts_of (_ # as) = posts_of as"

fun alerts_of :: "action list \<Rightarrow> string list" where
  "alerts_of [] = []"
| "alerts_of (Alerted m # as) = m # alerts_of as"
| "alerts_of (_ # as) = alerts_of as"

fun console_of :: "action list \<Rightarrow> logged list" where
  "console_of [] = []"
| "console_of (Logged l # as) = l # console_of as"
| "console_of (_ # as) = console_of as"

fun placed_of :: "action list \<Rightarrow> request list" where
  "placed_of [] = []"
| "placed_of (Placed q # as) = q # placed_of as"
| "placed_of (_ # as) = placed_of as"

definition posts :: "state \<Rightarrow> json list list" where
  "posts s = posts_of (trace s)"

definition alerts :: "state \<Rightarrow> string list" where
  "alerts s = alerts_of (trace s)"

definition console :: "state \<Rightarrow> logged list" where
  "console s = console_of (trace s)"

text \<open>A flush attempt is a call of \<^verbatim>\<open>uploadPizza\<close> that gets as far as its \<^verbatim>\<open>getAll\<close>.\<close>

definition flushes :: "state \<Rightarrow> nat" where
  "flushes s = count_list (placed_of (trace s)) GetAll"

subsection \<open>JavaScript's property read and truthiness\<close>

text \<open>
  \<^verbatim>\<open>serverResponse.message\<close>: a TypeError on \<^verbatim>\<open>null\<close>, the own property of an object,
  \<^verbatim>\<open>undefined\<close> (here \<open>None\<close>) on everything else.
\<close>

fun message :: "json \<Rightarrow> thrown + json option" where
  "message JNull = Inl TypeError"
| "message (JObj ps) = Inr (map_of ps ''message'')"
| "message _ = Inr None"

fun truthy :: "json option \<Rightarrow> bool" where
  "truthy None = False"
| "truthy (Some JNull) = False"
| "truthy (Some (JBool b)) = b"
| "truthy (Some (JNum n)) = (n \<noteq> 0)"
| "truthy (Some (JStr s)) = (s \<noteq> [])"
| "truthy (Some (JArr _)) = True"
| "truthy (Some (JObj _)) = True"

subsection \<open>The script's functions\<close>

text \<open>
  \<^verbatim>\<open>db.transaction(['new_pizza'], 'readwrite')\<close> followed by
  \<^verbatim>\<open>transaction.objectStore('new_pizza')\<close>.
\<close>

definition db_transaction :: "state \<Rightarrow> thrown + unit" where
  "db_transaction s =
     (if \<not> db s then Inl TypeError
      else if \<not> created s then Inl NotFoundError
      else Inr ())"

text \<open>
  \<^verbatim>\<open>request.onupgradeneeded\<close> (lines 28-39). Its \<^verbatim>\<open>const db\<close> is local to the callback:
  the module variable is not assigned here.
\<close>

definition request_onupgradeneeded :: "state \<Rightarrow> state" where
  "request_onupgradeneeded s = s\<lparr>created := True\<rparr>"

text \<open>\<^verbatim>\<open>saveRecord\<close> (lines 65-83): open a transaction, place the \<^verbatim>\<open>add\<close>, return.\<close>

definition saveRecord :: "json \<Rightarrow> state \<Rightarrow> thrown + state" where
  "saveRecord record s =
     (case db_transaction s of
        Inl e \<Rightarrow> Inl e
      | Inr _ \<Rightarrow> Inr (place (Add record) s))"

text \<open>\<^verbatim>\<open>uploadPizza\<close> (lines 90-98, 150): open a transaction, place the \<^verbatim>\<open>getAll\<close>, return.\<close>

definition uploadPizza :: "state \<Rightarrow> thrown + state" where
  "uploadPizza s =
     (case db_transaction s of
        Inl e \<Rightarrow> Inl e
      | Inr _ \<Rightarrow> Inr (place GetAll s))"

text \<open>\<^verbatim>\<open>fetch('/api/pizzas', {method: 'POST', body: JSON.stringify(result), ...})\<close>.\<close>

definition fetch :: "json list \<Rightarrow> state \<Rightarrow> state" where
  "fetch result s = emit (Fetched result) (s\<lparr>fetches := fetches s @ [result]\<rparr>)"

text \<open>\<^verbatim>\<open>getAll.onsuccess\<close> (lines 111-149), up to the call of \<^verbatim>\<open>fetch\<close>.\<close>

definition getAll_onsuccess :: "json list \<Rightarrow> state \<Rightarrow> state" where
  "getAll_onsuccess result s = (if length result > 0 then fetch result s else s)"

text \<open>\<^verbatim>\<open>.then(response => response.json())\<close> (line 127) on the settled fetch.\<close>

fun response_json :: "outcome \<Rightarrow> thrown + json" where
  "response_json Rejected = Inl FetchFailed"
| "response_json (Response status NotJson) = Inl SyntaxError"
| "response_json (Response status (Json v)) = Inr v"

definition confirmation :: string where
  "confirmation = ''All saved pizza has been submitted!''"

text \<open>\<^verbatim>\<open>.then(serverResponse => ...)\<close> (lines 129-144).\<close>

definition on_serverResponse :: "json \<Rightarrow> state \<Rightarrow> thrown + state" where
  "on_serverResponse serverResponse s =
     (case message serverResponse of
        Inl e \<Rightarrow> Inl e
      | Inr m \<Rightarrow>
          if truthy m then Inl (Error serverResponse)
          else (case db_transaction s of
                  Inl e \<Rightarrow> Inl e
                | Inr _ \<Rightarrow> Inr (emit (Alerted confirmation) (place Clear s))))"

text \<open>The whole chain with its \<^verbatim>\<open>.catch(err => console.log(err))\<close> (lines 126-147).\<close>

definition settled :: "outcome \<Rightarrow> state \<Rightarrow> state" where
  "settled out s =
     (case response_json out of
        Inl e \<Rightarrow> emit (Logged (Caught e)) s
      | Inr v \<Rightarrow>
          (case on_serverResponse v s of
             Inl e \<Rightarrow> emit (Logged (Caught e)) s
           | Inr s' \<Rightarrow> s'))"

text \<open>\<^verbatim>\<open>request.onsuccess\<close> (lines 42-52).\<close>

definition request_onsuccess :: "state \<Rightarrow> thrown + state" where
  "request_onsuccess s =
     (let s1 = s\<lparr>db := True\<rparr>
      in if online s1 then uploadPizza s1 else Inr s1)"

text \<open>\<^verbatim>\<open>request.onerror\<close> (lines 54-57).\<close>

definition request_onerror :: "nat \<Rightarrow> state \<Rightarrow> state" where
  "request_onerror code s = emit (Logged (ErrorCode code)) s"

subsection \<open>The storage layer\<close>

text \<open>
  \<^verbatim>\<open>getAll\<close> reads the values in ascending key order. \<^verbatim>\<open>add\<close> on a store with
  \<^verbatim>\<open>autoIncrement\<close> takes the key from the generator, which then moves on. \<^verbatim>\<open>clear\<close>
  removes every entry and leaves the generator alone.
\<close>

definition drain :: "state \<Rightarrow> json list" where
  "drain s = map snd (sort_key fst (store s))"

definition execute :: "request \<Rightarrow> state \<Rightarrow> state" where
  "execute q s =
     (case q of
        Add record \<Rightarrow> s\<lparr>store := store s @ [(keygen s, record)], keygen := Suc (keygen s)\<rparr>
      | GetAll \<Rightarrow> getAll_onsuccess (drain s) s
      | Clear \<Rightarrow> s\<lparr>store := []\<rparr>)"

subsection \<open>The event loop\<close>

datatype event =
    OpenDone              \<comment> \<open>the open request succeeds\<close>
  | OpenFail nat          \<comment> \<open>the open request fails with an error code\<close>
  | GoOnline              \<comment> \<open>the window's \<^verbatim>\<open>online\<close> event\<close>
  | GoOffline             \<comment> \<open>the network is lost; the script has no listener\<close>
  | Submit json           \<comment> \<open>the form's fallback calls \<^verbatim>\<open>saveRecord(record)\<close>\<close>
  | IdbNext bool          \<comment> \<open>the storage layer takes the oldest request; False: it fails\<close>
  | FetchDone nat outcome \<comment> \<open>the fetch at this position in \<open>fetches\<close> settles\<close>
  | Reload                \<comment> \<open>the page is loaded again\<close>

text \<open>An exception that nothing catches ends the task and leaves the state as it was.\<close>

definition run_task :: "state \<Rightarrow> thrown + state \<Rightarrow> state" where
  "run_task s r = (case r of Inl e \<Rightarrow> emit (Threw e) s | Inr s' \<Rightarrow> s')"

fun step :: "event \<Rightarrow> state \<Rightarrow> state" where
  "step OpenDone s =
     (if \<not> connecting s then s
      else let s0 = s\<lparr>connecting := False\<rparr>;
               s1 = (if created s0 then s0 else request_onupgradeneeded s0)
           in run_task (s1\<lparr>db := True\<rparr>) (request_onsuccess s1))"
| "step (OpenFail code) s =
     (if \<not> connecting s then s else request_onerror code (s\<lparr>connecting := False\<rparr>))"
| "step GoOnline s = (let s1 = s\<lparr>online := True\<rparr> in run_task s1 (uploadPizza s1))"
| "step GoOffline s = s\<lparr>online := False\<rparr>"
| "step (Submit record) s = run_task s (saveRecord record s)"
| "step (IdbNext ok) s =
     (case pending s of
        [] \<Rightarrow> s
      | q # qs \<Rightarrow> (let s1 = s\<lparr>pending := qs\<rparr> in if ok then execute q s1 else s1))"
| "step (FetchDone i out) s =
     (if i < length (fetches s)
      then settled out (s\<lparr>fetches := take i (fetches s) @ drop (Suc i) (fetches s)\<rparr>)
      else s)"
| "step Reload s = s\<lparr>db := False, connecting := True, pending := [], fetches := []\<rparr>"

text \<open>A run of the event loop: the events in the order they are handled.\<close>

fun run :: "event list \<Rightarrow> state \<Rightarrow> state" where
  "run [] s = s"
| "run (e # es) s = run es (step e s)"

definition reachable :: "state \<Rightarrow> bool" where
  "reachable s = (\<exists>es. s = run es init)"

subsection \<open>Well-formed states\<close>

text \<open>
  The keys of the store ascend in the order of the list and lie below the key
  generator; a connection implies that the object store was created; requests and
  fetches exist only on a page that has its connection; a batch in flight is not
  empty.
\<close>

definition keys_ok :: "state \<Rightarrow> bool" where
  "keys_ok s =
     (sorted (map fst (store s)) \<and> list_all (\<lambda>k. k < keygen s) (map fst (store s)))"

definition wellformed :: "state \<Rightarrow> bool" where
  "wellformed s =
     (keys_ok s \<and> (db s \<longrightarrow> created s) \<and> (pending s \<noteq> [] \<longrightarrow> db s)
      \<and> (fetches s \<noteq> [] \<longrightarrow> db s) \<and> list_all (\<lambda>b. b \<noteq> []) (fetches s))"

subsection \<open>Runs of enqueue calls\<close>

text \<open>The records handed to \<^verbatim>\<open>saveRecord\<close> along a run, in the order of the calls.\<close>

fun enqueued :: "event list \<Rightarrow> json list" where
  "enqueued [] = []"
| "enqueued (Submit r # es) = r # enqueued es"
| "enqueued (_ # es) = enqueued es"

text \<open>A call of \<^verbatim>\<open>saveRecord\<close>, or a step of the storage layer that succeeds.\<close>

fun enqueue_or_store :: "event \<Rightarrow> bool" where
  "enqueue_or_store (Submit r) = True"
| "enqueue_or_store (IdbNext ok) = ok"
| "enqueue_or_store _ = False"

text \<open>The records of the \<^verbatim>\<open>add\<close> requests in a queue of requests.\<close>

fun adds :: "request list \<Rightarrow> json list" where
  "adds [] = []"
| "adds (Add r # qs) = r # adds qs"
| "adds (_ # qs) = adds qs"

fun only_adds :: "request list \<Rightarrow> bool" where
  "only_adds [] = True"
| "only_adds (Add r # qs) = only_adds qs"
| "only_adds (_ # qs) = False"

text \<open>
  A page with its connection on which the storage layer has nothing to do but
  \<^verbatim>\<open>add\<close> requests.
\<close>

definition buffered :: "state \<Rightarrow> bool" where
  "buffered s = (db s \<and> created s \<and> keys_ok s \<and> only_adds (pending s))"


subsection \<open>Example data\<close>

definition zesty :: json where
  "zesty = JObj [(''pizzaName'', JStr ''Zesty''), (''size'', JStr ''Large'')]"

definition late :: json where
  "late = JObj [(''pizzaName'', JStr ''Late''), (''size'', JStr ''Small'')]"

text \<open>The server's answer to a batch holding \<open>zesty\<close>: the created document.\<close>

definition zesty_created :: outcome where
  "zesty_created =
     Response 200 (Json (JArr [JObj [(''_id'', JStr ''1''), (''pizzaName'', JStr ''Zesty''),
                                     (''size'', JStr ''Large'')]]))"

text \<open>
  A page with its connection, loaded online on a new browser: the synthetic flush
  has found the store empty.
\<close>

definition ready :: state where
  "ready = run [OpenDone, IdbNext True] init"

text \<open>The same page with \<open>zesty\<close> written to the store while offline.\<close>

definition queued_zesty :: state where
  "queued_zesty = run [GoOffline, Submit zesty, IdbNext True] ready"

text \<open>The batch holding \<open>zesty\<close> has been drained and handed to \<^verbatim>\<open>fetch\<close>.\<close>

definition flushing_zesty :: state where
  "flushing_zesty = run [GoOnline, IdbNext True] queued_zesty"

text \<open>An HTTP 500 whose body is JSON and says nothing under \<^verbatim>\<open>message\<close>.\<close>

definition server_error :: outcome where
  "server_error = Response 500 (Json (JObj [(''error'', JStr ''Internal Server Error'')]))"

text \<open>
  An interleaving: \<open>zesty\<close> is saved offline, the page comes online and drains,
  \<open>late\<close> is saved and written while the batch is in flight, the server answers
  with the created document. The \<^verbatim>\<open>clear\<close> is placed and not yet executed.
\<close>

definition saved_while_flushing :: "event list" where
  "saved_while_flushing =
     [OpenDone, IdbNext True, GoOffline, Submit zesty, IdbNext True,
      GoOnline, IdbNext True, Submit late, IdbNext True, FetchDone 0 zesty_created]"

subsection \<open>Outcomes of a submission\<close>

text \<open>
  The failures that the script detects: the fetch is rejected (a network error),
  the body of the response is not JSON or is \<^verbatim>\<open>null\<close>, or the body is an object
  whose \<^verbatim>\<open>message\<close> is truthy.
\<close>

fun failed_submission :: "outcome \<Rightarrow> bool" where
  "failed_submission Rejected = True"
| "failed_submission (Response status NotJson) = True"
| "failed_submission (Response status (Json JNull)) = True"
| "failed_submission (Response status (Json (JObj ps))) = truthy (map_of ps ''message'')"
| "failed_submission (Response status (Json _)) = False"


section \<open>Properties\<close>

subsection \<open>Reading the trace\<close>

lemma posts_of_append [simp]: "posts_of (xs @ ys) = posts_of xs @ posts_of ys"
  by (induction xs rule: posts_of.induct) simp_all

lemma alerts_of_append [simp]: "alerts_of (xs @ ys) = alerts_of xs @ alerts_of ys"
  by (induction xs rule: alerts_of.induct) simp_all

lemma console_of_append [simp]: "console_of (xs @ ys) = console_of xs @ console_of ys"
  by (induction xs rule: console_of.induct) simp_all

lemma placed_of_append [simp]: "placed_of (xs @ ys) = placed_of xs @ placed_of ys"
  by (induction xs rule: placed_of.induct) simp_all

lemmas script_defs =
  emit_def place_def db_transaction_def request_onupgradeneeded_def saveRecord_def
  uploadPizza_def fetch_def getAll_onsuccess_def on_serverResponse_def settled_def
  request_onsuccess_def request_onerror_def execute_def run_task_def

lemmas reading_defs = posts_def alerts_def console_def flushes_def

lemma run_append [simp]: "run (es @ fs) s = run fs (run es s)"
  by (induction es arbitrary: s) simp_all

subsection \<open>Every reachable state is well-formed\<close>

lemma drain_keys_ok: "keys_ok s \<Longrightarrow> drain s = map snd (store s)"
  by (simp add: keys_ok_def drain_def sort_key_id_if_sorted)

lemma wellformed_init: "wellformed init"
  by (simp add: wellformed_def keys_ok_def init_def)

lemma wellformed_step: "wellformed s \<Longrightarrow> wellformed (step e s)"
proof (cases e)
  case (IdbNext ok)
  assume wf: "wellformed s"
  show ?thesis
  proof (cases "pending s")
    case Nil
    with wf IdbNext show ?thesis by simp
  next
    case (Cons q qs)
    with wf IdbNext show ?thesis
      by (cases q)
         (auto simp: wellformed_def script_defs keys_ok_def Let_def
                     sorted_append list_all_iff less_Suc_eq)
  qed
next
  case (FetchDone i out)
  assume "wellformed s"
  with FetchDone show ?thesis
    by (auto simp: wellformed_def script_defs keys_ok_def list_all_iff split: sum.splits
             dest: in_set_takeD in_set_dropD)
qed (auto simp: wellformed_def script_defs keys_ok_def Let_def split: sum.splits)

lemma wellformed_run: "wellformed s \<Longrightarrow> wellformed (run es s)"
  by (induction es arbitrary: s) (simp_all add: wellformed_step)

lemma reachable_wellformed: "reachable s \<Longrightarrow> wellformed s"
  by (auto simp: reachable_def wellformed_run wellformed_init)

lemma reachable_run: "reachable s \<Longrightarrow> reachable (run es s)"
  unfolding reachable_def
proof (elim exE)
  fix fs assume "s = run fs init"
  then have "run es s = run (fs @ es) init" by simp
  then show "\<exists>gs. run es s = run gs init" by blast
qed

lemma reachable_init: "reachable init"
  unfolding reachable_def by (rule exI [of _ "[]"]) simp

subsection \<open>Before the connection\<close>

lemma db_settled [simp]: "db (settled out s) = db s"
  by (simp add: settled_def on_serverResponse_def place_def emit_def split: sum.splits)

lemma db_execute [simp]: "db (execute q s) = db s"
  by (cases q) (simp_all add: execute_def getAll_onsuccess_def fetch_def emit_def)

lemma saveRecord_unset: "\<not> db s \<Longrightarrow> saveRecord r s = Inl TypeError"
  by (simp add: saveRecord_def db_transaction_def)

lemma uploadPizza_unset: "\<not> db s \<Longrightarrow> uploadPizza s = Inl TypeError"
  by (simp add: uploadPizza_def db_transaction_def)


lemma db_stays_unset: "\<not> db s \<Longrightarrow> e \<noteq> OpenDone \<Longrightarrow> \<not> db (step e s)"
proof (cases e)
  case (IdbNext ok)
  assume "\<not> db s"
  with IdbNext show ?thesis by (cases "pending s") (simp_all add: Let_def)
next
  case GoOnline
  assume "\<not> db s"
  with GoOnline show ?thesis by (simp add: Let_def uploadPizza_unset run_task_def emit_def)
next
  case (Submit r)
  assume "\<not> db s"
  with Submit show ?thesis by (simp add: saveRecord_unset run_task_def emit_def)
qed (simp_all add: request_onerror_def emit_def)

lemma db_unset_run: "\<not> db s \<Longrightarrow> OpenDone \<notin> set es \<Longrightarrow> \<not> db (run es s)"
proof (induction es arbitrary: s)
  case Nil
  then show ?case by simp
next
  case (Cons e es)
  from Cons.prems have "e \<noteq> OpenDone" and rest: "OpenDone \<notin> set es" by auto
  with Cons.prems(1) have "\<not> db (step e s)" by (simp add: db_stays_unset)
  from Cons.IH [OF this rest] show ?case by simp
qed


text \<open>
  C9. A call of \<^verbatim>\<open>saveRecord\<close> or \<^verbatim>\<open>uploadPizza\<close> made before the success callback
  of the open request has run fails: \<^verbatim>\<open>db\<close> is still \<^verbatim>\<open>undefined\<close> when the
  transaction is opened, a TypeError is thrown, and the state is left as it was
  but for the exception: no request is placed, so nothing is stored, and nothing
  is handed to \<^verbatim>\<open>fetch\<close>. The module variable is assigned by the success
  callback only: on a page whose \<open>db\<close> is unset it stays unset along every run
  of events without \<open>OpenDone\<close>.
\<close>

theorem C9_before_connection:
  assumes "\<not> db s0" and "OpenDone \<notin> set es"
  shows "let s = run es s0 in
           saveRecord r s = Inl TypeError
         \<and> uploadPizza s = Inl TypeError
         \<and> step (Submit r) s = s\<lparr>trace := trace s @ [Threw TypeError]\<rparr>
         \<and> step GoOnline s = s\<lparr>online := True, trace := trace s @ [Threw TypeError]\<rparr>"
proof -
  have "\<not> db (run es s0)" using assms by (rule db_unset_run)
  then show ?thesis
    by (simp add: Let_def saveRecord_unset uploadPizza_unset run_task_def emit_def)
qed

text \<open>
  The theorem at the page right after its load, after an \<^verbatim>\<open>online\<close> event, an
  attempt to save and a failed open request.
\<close>

theorem C9_before_connection_witness:
  "\<not> db init \<and> OpenDone \<notin> set [GoOnline, Submit late, IdbNext True, OpenFail 0] \<and>
   (let s = run [GoOnline, Submit late, IdbNext True, OpenFail 0] init in
           saveRecord zesty s = Inl TypeError
         \<and> uploadPizza s = Inl TypeError
         \<and> step (Submit zesty) s = s\<lparr>trace := trace s @ [Threw TypeError]\<rparr>
         \<and> step GoOnline s = s\<lparr>online := True, trace := trace s @ [Threw TypeError]\<rparr>)"
proof -
  have a: "\<not> db init" by (simp add: init_def)
  have b: "OpenDone \<notin> set [GoOnline, Submit late, IdbNext True, OpenFail 0]" by simp
  from a b C9_before_connection [OF a b, of zesty] show ?thesis by blast
qed

subsection \<open>What changes the store\<close>



lemma store_settled [simp]: "store (settled out s) = store s"
  by (simp add: settled_def on_serverResponse_def place_def emit_def split: sum.splits)










subsection \<open>A settled submission\<close>

lemma failed_submission_settled:
  "failed_submission out \<Longrightarrow>
   \<exists>e. settled out s = s\<lparr>trace := trace s @ [Logged (Caught e)]\<rparr>"
  by (induction out rule: failed_submission.induct)
     (auto simp: settled_def on_serverResponse_def emit_def)

text \<open>
  The failures that the script does detect (the fetch is rejected, the body is not
  JSON or is \<^verbatim>\<open>null\<close>, or the body carries a truthy \<^verbatim>\<open>message\<close>) end the chain in
  its \<^verbatim>\<open>catch\<close>: the error is logged, no \<^verbatim>\<open>clear\<close> is placed, the store and the
  queue of requests are as before, no confirmation is shown and nothing is
  submitted again.
\<close>

lemma detected_failure_leaves_queue:
  assumes "failed_submission out" and "i < length (fetches s)"
  shows "let s' = step (FetchDone i out) s in
           (\<exists>e. trace s' = trace s @ [Logged (Caught e)])
         \<and> pending s' = pending s \<and> store s' = store s
         \<and> alerts s' = alerts s \<and> posts s' = posts s
         \<and> length (console s') = Suc (length (console s))"
proof -
  let ?s = "s\<lparr>fetches := take i (fetches s) @ drop (Suc i) (fetches s)\<rparr>"
  from assms(1) obtain e where "settled out ?s = ?s\<lparr>trace := trace ?s @ [Logged (Caught e)]\<rparr>"
    using failed_submission_settled by blast
  with assms(2) show ?thesis
    by (simp add: Let_def reading_defs)
qed

text \<open>The state with the batch \<open>[zesty]\<close> in flight, evaluated.\<close>

lemma flushing_zesty_eval:
  "flushing_zesty =
     \<lparr>created = True, store = [(1, zesty)], keygen = 2, db = True, connecting = False,
      pending = [], fetches = [[zesty]], online = True,
      trace = [Placed GetAll, Placed (Add zesty), Placed GetAll, Fetched [zesty]]\<rparr>"
  by (simp add: flushing_zesty_def queued_zesty_def ready_def init_def script_defs drain_def Let_def)

text \<open>
  C1 asks that a flush attempt whose submission fails, a response of a status
  outside 2xx among the failures, leaves the queue intact, logs the error and shows
  no confirmation. The script does not do so: it never reads the status. With the
  batch \<open>[zesty]\<close> in flight, a response of status 500 whose JSON body has no
  \<^verbatim>\<open>message\<close> makes it place the \<^verbatim>\<open>clear\<close>, show the confirmation and log nothing;
  the store is empty once the \<^verbatim>\<open>clear\<close> has been executed, and \<open>zesty\<close> was accepted
  by no server.
\<close>

theorem C1_undetected_server_error:
  "store flushing_zesty = [(1, zesty)]
   \<and> posts flushing_zesty = [[zesty]]
   \<and> trace (step (FetchDone 0 server_error) flushing_zesty)
       = trace flushing_zesty @ [Placed Clear, Alerted confirmation]
   \<and> alerts (step (FetchDone 0 server_error) flushing_zesty) = [confirmation]
   \<and> console (step (FetchDone 0 server_error) flushing_zesty) = []
   \<and> store (run [FetchDone 0 server_error, IdbNext True] flushing_zesty) = []"
  by (simp add: flushing_zesty_eval server_error_def script_defs reading_defs Let_def)

subsection \<open>The storage layer works through its queue\<close>

lemma pending_execute [simp]: "pending (execute q s) = pending s"
  by (cases q) (simp_all add: execute_def getAll_onsuccess_def fetch_def emit_def)

lemma pending_step_IdbNext [simp]: "pending (step (IdbNext ok) s) = tl (pending s)"
  by (cases "pending s") (simp_all add: Let_def)









subsection \<open>Flush attempts\<close>

lemma flushes_emit:
  "flushes (emit a s) = flushes s + (if a = Placed GetAll then 1 else 0)"
  by (cases a) (auto simp: flushes_def emit_def)

lemma flushes_place:
  "flushes (place q s) = flushes s + (if q = GetAll then 1 else 0)"
  by (simp add: place_def flushes_emit) (simp add: flushes_def)

lemma flushes_update [simp]:
  "flushes (s\<lparr>fetches := fs\<rparr>) = flushes s"
  "flushes (s\<lparr>pending := qs\<rparr>) = flushes s"
  "flushes (s\<lparr>online := b\<rparr>) = flushes s"
  "flushes (s\<lparr>db := b\<rparr>) = flushes s"
  "flushes (s\<lparr>created := b\<rparr>) = flushes s"
  "flushes (s\<lparr>connecting := b\<rparr>) = flushes s"
  "flushes (s\<lparr>store := st\<rparr>) = flushes s"
  "flushes (s\<lparr>keygen := k\<rparr>) = flushes s"
  by (simp_all add: flushes_def)

lemma flushes_settled: "flushes (settled out s) = flushes s"
  by (simp add: settled_def on_serverResponse_def flushes_emit flushes_place split: sum.splits)

lemma flushes_execute: "flushes (execute q s) = flushes s"
  by (cases q) (simp_all add: execute_def getAll_onsuccess_def fetch_def flushes_emit)

lemma flushes_step_GoOnline:
  "flushes (step GoOnline s) = flushes s + (if db s \<and> created s then 1 else 0)"
  by (simp add: Let_def run_task_def uploadPizza_def db_transaction_def flushes_emit flushes_place)

lemma flushes_step_OpenDone:
  "flushes (step OpenDone s) = flushes s + (if connecting s \<and> online s then 1 else 0)"
  by (simp add: Let_def run_task_def request_onsuccess_def request_onupgradeneeded_def
                uploadPizza_def db_transaction_def flushes_emit flushes_place)

lemma flushes_step_other:
  "e \<noteq> GoOnline \<Longrightarrow> e \<noteq> OpenDone \<Longrightarrow> flushes (step e s) = flushes s"
proof (cases e)
  case (IdbNext ok)
  then show ?thesis
    by (cases "pending s") (simp_all add: Let_def flushes_execute)
next
  case (Submit r)
  then show ?thesis
    by (simp add: run_task_def saveRecord_def db_transaction_def flushes_emit flushes_place)
next
  case (FetchDone i out)
  then show ?thesis by (simp add: flushes_settled)
qed (simp_all add: request_onerror_def flushes_emit)

text \<open>
  C8. A flush attempt is triggered at most once by each event of the loop, and by
  two events only. An \<^verbatim>\<open>online\<close> event, the platform's signal of a transition from
  offline to online, triggers one when the page has its connection (and none
  before it, where \<^verbatim>\<open>uploadPizza\<close> throws). The success of the open request, which
  comes once for each load of the page, triggers exactly one synthetic flush
  attempt on a page that is online (on a page that is offline at that moment the
  guard on \<^verbatim>\<open>navigator.onLine\<close> skips it, and the next \<^verbatim>\<open>online\<close> event flushes).
\<close>

theorem C8_flush_triggers:
  "flushes (step GoOnline s) = flushes s + (if db s \<and> created s then 1 else 0)
   \<and> flushes (step OpenDone s) = flushes s + (if connecting s \<and> online s then 1 else 0)
   \<and> (e \<noteq> GoOnline \<and> e \<noteq> OpenDone \<longrightarrow> flushes (step e s) = flushes s)
   \<and> flushes (step e s) \<le> Suc (flushes s)"
proof -
  have "flushes (step e s) \<le> Suc (flushes s)"
  proof (cases "e = GoOnline \<or> e = OpenDone")
    case True
    then show ?thesis
      by (auto simp only: flushes_step_GoOnline flushes_step_OpenDone split: if_splits)
  next
    case False
    then have "flushes (step e s) = flushes s" by (simp add: flushes_step_other)
    then show ?thesis by simp
  qed
  with flushes_step_other [of e s] show ?thesis
    by (simp only: flushes_step_GoOnline flushes_step_OpenDone) blast
qed

text \<open>
  The theorem at the page with its connection (an \<^verbatim>\<open>online\<close> event, a call of
  \<^verbatim>\<open>saveRecord\<close>, a second completion of the open request) and at the page right
  after its load, online and offline.
\<close>

theorem C8_flush_triggers_witness:
  "flushes (step GoOnline ready) = Suc (flushes ready)
   \<and> flushes (step OpenDone init) = Suc (flushes init)
   \<and> flushes (step OpenDone (step GoOffline init)) = flushes (step GoOffline init)
   \<and> flushes (step OpenDone ready) = flushes ready
   \<and> Submit zesty \<noteq> GoOnline \<and> Submit zesty \<noteq> OpenDone
   \<and> flushes (step (Submit zesty) ready) = flushes ready"
proof -
  have c: "db ready" "created ready" "\<not> connecting ready"
    by (simp_all add: ready_def init_def script_defs Let_def drain_def)
  have i: "connecting init" "online init" "connecting (step GoOffline init)"
    "\<not> online (step GoOffline init)"
    by (simp_all add: init_def)
  have e: "Submit zesty \<noteq> GoOnline" "Submit zesty \<noteq> OpenDone" by simp_all
  from C8_flush_triggers [of ready "Submit zesty"] C8_flush_triggers [of init GoOffline]
    C8_flush_triggers [of "step GoOffline init" GoOffline] c i e
  show ?thesis by (simp del: step.simps)
qed

subsection \<open>Enqueue, then drain\<close>

lemma drain_execute_Add:
  "keys_ok s \<Longrightarrow> keys_ok (execute (Add r) s) \<and> drain (execute (Add r) s) = drain s @ [r]"
proof -
  assume k: "keys_ok s"
  then have k': "keys_ok (execute (Add r) s)"
    by (auto simp: keys_ok_def execute_def sorted_append list_all_iff less_Suc_eq)
  from k k' show ?thesis
    by (simp add: drain_keys_ok) (simp add: execute_def)
qed

text \<open>The storage layer executes a block of \<^verbatim>\<open>add\<close> requests at the head of its queue.\<close>

lemma run_adds:
  "keys_ok s \<Longrightarrow> pending s = map Add rs @ rest \<Longrightarrow>
   (let t = run (replicate (length rs) (IdbNext True)) s in
      keys_ok t \<and> pending t = rest \<and> drain t = drain s @ rs \<and> trace t = trace s
      \<and> fetches t = fetches s \<and> db t = db s \<and> created t = created s)"
proof (induction rs arbitrary: s)
  case Nil
  then show ?case by simp
next
  case (Cons r rs)
  let ?s1 = "step (IdbNext True) s"
  from Cons.prems have s1: "?s1 = execute (Add r) (s\<lparr>pending := map Add rs @ rest\<rparr>)"
    by (simp add: Let_def)
  from Cons.prems(1) have "keys_ok (s\<lparr>pending := map Add rs @ rest\<rparr>)"
    by (simp add: keys_ok_def)
  from drain_execute_Add [OF this, of r] s1
  have k1: "keys_ok ?s1" and d1: "drain ?s1 = drain s @ [r]"
    by (simp_all add: drain_def)
  from s1 have p1: "pending ?s1 = map Add rs @ rest"
    and o1: "trace ?s1 = trace s" "fetches ?s1 = fetches s" "db ?s1 = db s"
            "created ?s1 = created s"
    by (simp_all add: execute_def)
  from Cons.IH [OF k1 p1] d1 o1 show ?case
    by (simp add: Let_def del: step.simps)
qed

lemma adds_append [simp]: "adds (qs @ qs') = adds qs @ adds qs'"
  by (induction qs rule: adds.induct) simp_all

lemma only_adds_append [simp]: "only_adds (qs @ qs') = (only_adds qs \<and> only_adds qs')"
  by (induction qs rule: adds.induct) simp_all

lemma only_adds_map: "only_adds qs \<Longrightarrow> qs = map Add (adds qs)"
  by (induction qs rule: adds.induct) simp_all

text \<open>
  Along calls of \<^verbatim>\<open>saveRecord\<close> and steps of the storage layer, the records in the
  store followed by those still waiting in \<^verbatim>\<open>add\<close> requests grow by the records
  saved, in the order of the calls.
\<close>

lemma buffered_step:
  assumes "buffered s" and "enqueue_or_store e"
  shows "buffered (step e s) \<and>
         drain (step e s) @ adds (pending (step e s)) = drain s @ adds (pending s) @ enqueued [e]
         \<and> trace (step e s) = trace s @ map (\<lambda>r. Placed (Add r)) (enqueued [e])"
proof (cases e)
  case (Submit r)
  with assms(1) show ?thesis
    by (simp add: buffered_def saveRecord_def db_transaction_def run_task_def place_def emit_def
                  keys_ok_def drain_def)
next
  case (IdbNext ok)
  with assms(2) have ok: "ok" by simp
  show ?thesis
  proof (cases "pending s")
    case Nil
    with IdbNext assms(1) show ?thesis by simp
  next
    case (Cons q qs)
    with assms(1) obtain r where q: "q = Add r" and qs: "only_adds qs"
      by (cases q) (auto simp: buffered_def)
    let ?s0 = "s\<lparr>pending := qs\<rparr>"
    from assms(1) have "keys_ok ?s0" by (simp add: buffered_def keys_ok_def)
    from drain_execute_Add [OF this, of r]
    have "keys_ok (execute (Add r) ?s0)" and "drain (execute (Add r) ?s0) = drain s @ [r]"
      by (simp_all add: drain_def)
    moreover have "step e s = execute (Add r) ?s0"
      using IdbNext ok Cons q by (simp add: Let_def)
    moreover have "db (execute (Add r) ?s0) = db s" "created (execute (Add r) ?s0) = created s"
      "pending (execute (Add r) ?s0) = qs" "trace (execute (Add r) ?s0) = trace s"
      by (simp_all add: execute_def)
    ultimately show ?thesis
      using assms(1) Cons q qs IdbNext by (simp add: buffered_def del: step.simps)
  qed
qed (use assms(2) in simp_all)

lemma enqueued_append [simp]: "enqueued (es @ fs) = enqueued es @ enqueued fs"
  by (induction es rule: enqueued.induct) simp_all

lemma buffered_run:
  "buffered s \<Longrightarrow> list_all enqueue_or_store es \<Longrightarrow>
   buffered (run es s) \<and>
   drain (run es s) @ adds (pending (run es s)) = drain s @ adds (pending s) @ enqueued es
   \<and> trace (run es s) = trace s @ map (\<lambda>r. Placed (Add r)) (enqueued es)"
proof (induction es arbitrary: s)
  case Nil
  then show ?case by simp
next
  case (Cons e es)
  from Cons.prems have e: "enqueue_or_store e" and es: "list_all enqueue_or_store es"
    by simp_all
  note st = buffered_step [OF Cons.prems(1) e]
  from st have b: "buffered (step e s)" by blast
  have en: "enqueued (e # es) = enqueued [e] @ enqueued es"
    by (simp only: enqueued_append [symmetric]) simp
  from Cons.IH [OF b es] st show ?case
    by (simp only: run.simps en) simp
qed


lemma step_GoOnline_connected:
  "db s \<Longrightarrow> created s \<Longrightarrow> step GoOnline s = place GetAll (s\<lparr>online := True\<rparr>)"
  by (simp add: Let_def uploadPizza_def db_transaction_def run_task_def)

text \<open>The storage layer executes a \<^verbatim>\<open>getAll\<close> that is alone in its queue.\<close>

lemma step_drain:
  assumes "pending s = [GetAll]"
  shows "store (step (IdbNext True) s) = store s
         \<and> keygen (step (IdbNext True) s) = keygen s
         \<and> pending (step (IdbNext True) s) = []
         \<and> trace (step (IdbNext True) s)
             = trace s @ (if drain s = [] then [] else [Fetched (drain s)])
         \<and> fetches (step (IdbNext True) s)
             = fetches s @ (if drain s = [] then [] else [drain s])"
proof -
  have "drain (s\<lparr>pending := []\<rparr>) = drain s" by (simp add: drain_def)
  with assms show ?thesis
    by (simp add: Let_def execute_def getAll_onsuccess_def fetch_def emit_def)
qed

text \<open>
  C3. On a page with its connection and an idle storage layer, let calls of
  \<^verbatim>\<open>saveRecord\<close> with the records \<open>r1, ..., rn\<close> and successful steps of the storage
  layer follow one another in any order, and let a flush attempt follow them.
  When the storage layer reaches the \<^verbatim>\<open>getAll\<close>, the drain is what the store held
  before, followed by \<open>r1, ..., rn\<close> in the order of the calls (exactly
  \<open>[r1, ..., rn]\<close> on a store that was empty). Executing the \<^verbatim>\<open>getAll\<close> leaves the
  store as it is; a drain that is empty hands nothing to \<^verbatim>\<open>fetch\<close> and neither throws
  nor logs, a drain that is not is handed to \<^verbatim>\<open>fetch\<close> whole.
\<close>

theorem C3_enqueue_then_drain:
  assumes "reachable s" and "db s" and "pending s = []" and "list_all enqueue_or_store es"
  shows "let s1 = run (es @ [GoOnline]) s;
             s2 = run (replicate (length (pending s1) - 1) (IdbNext True)) s1;
             s3 = step (IdbNext True) s2
         in pending s2 = [GetAll]
          \<and> drain s2 = drain s @ enqueued es
          \<and> store s3 = store s2
          \<and> trace s3 = trace s2 @ (if drain s2 = [] then [] else [Fetched (drain s2)])
          \<and> pending s3 = []"
proof -
  let ?t = "run es s"
  let ?s1 = "run (es @ [GoOnline]) s"
  let ?n = "length (pending ?s1) - 1"
  let ?s2 = "run (replicate ?n (IdbNext True)) ?s1"
  from assms(1) have "wellformed s" by (rule reachable_wellformed)
  with assms(2,3) have "buffered s" by (simp add: buffered_def wellformed_def)
  from buffered_run [OF this assms(4)] assms(3)
  have bt: "buffered ?t" and dt: "drain ?t @ adds (pending ?t) = drain s @ enqueued es"
    by simp_all
  from bt have pt: "pending ?t = map Add (adds (pending ?t))"
    by (simp add: buffered_def only_adds_map)
  from bt have s1: "?s1 = place GetAll (?t\<lparr>online := True\<rparr>)"
    by (simp add: buffered_def step_GoOnline_connected del: step.simps)
  then have p1: "pending ?s1 = map Add (adds (pending ?t)) @ [GetAll]"
    using pt by (simp add: place_def emit_def)
  then have n: "?n = length (adds (pending ?t))"
    by (simp only: length_append length_map) simp
  from s1 bt have k1: "keys_ok ?s1" and d1: "drain ?s1 = drain ?t"
    by (simp_all add: buffered_def keys_ok_def drain_def place_def emit_def)
  from run_adds [OF k1 p1] n d1 dt
  have p2: "pending ?s2 = [GetAll]" and d2: "drain ?s2 = drain s @ enqueued es"
    by (simp_all only: Let_def)
  from step_drain [OF p2] p2 d2 show ?thesis
    by (simp only: Let_def)
qed


text \<open>The page with its connection and an empty store, evaluated.\<close>

lemma ready_eval:
  "ready =
     \<lparr>created = True, store = [], keygen = 1, db = True, connecting = False,
      pending = [], fetches = [], online = True, trace = [Placed GetAll]\<rparr>"
  by (simp add: ready_def init_def script_defs drain_def Let_def)

lemma reachable_ready: "reachable ready"
  unfolding ready_def by (intro reachable_run reachable_init)

text \<open>
  The theorem at the empty store: \<open>zesty\<close> is saved and written, \<open>late\<close> is saved,
  and the drain is \<open>[zesty, late]\<close>.
\<close>

theorem C3_enqueue_then_drain_witness:
  "reachable ready \<and> db ready \<and> pending ready = []
   \<and> list_all enqueue_or_store [Submit zesty, IdbNext True, Submit late]
   \<and> drain ready @ enqueued [Submit zesty, IdbNext True, Submit late] = [zesty, late]
   \<and> (let s1 = run ([Submit zesty, IdbNext True, Submit late] @ [GoOnline]) ready;
             s2 = run (replicate (length (pending s1) - 1) (IdbNext True)) s1;
             s3 = step (IdbNext True) s2
         in pending s2 = [GetAll]
          \<and> drain s2 = drain ready @ enqueued [Submit zesty, IdbNext True, Submit late]
          \<and> store s3 = store s2
          \<and> trace s3 = trace s2 @ (if drain s2 = [] then [] else [Fetched (drain s2)])
          \<and> pending s3 = [])"
proof -
  have a: "reachable ready" by (rule reachable_ready)
  have b: "db ready" and c: "pending ready = []" by (simp_all add: ready_eval)
  have d: "list_all enqueue_or_store [Submit zesty, IdbNext True, Submit late]" by simp
  have e: "drain ready @ enqueued [Submit zesty, IdbNext True, Submit late] = [zesty, late]"
    by (simp add: ready_eval drain_def)
  from a b c d e C3_enqueue_then_drain [OF a b c d] show ?thesis by blast
qed

subsection \<open>Durability\<close>

lemma step_Submit_connected:
  "db s \<Longrightarrow> created s \<Longrightarrow> step (Submit r) s = place (Add r) s"
  by (simp add: saveRecord_def db_transaction_def run_task_def)

lemma keygen_fresh: "keys_ok s \<Longrightarrow> keygen s \<notin> set (map fst (store s))"
  by (auto simp: keys_ok_def list_all_iff)

text \<open>A reload and the success of the new open request keep the store and its generator.\<close>

lemma reopen:
  "store (run [Reload, OpenDone] s) = store s \<and> keygen (run [Reload, OpenDone] s) = keygen s
   \<and> db (run [Reload, OpenDone] s) \<and> created (run [Reload, OpenDone] s)"
  by (simp add: Let_def request_onsuccess_def request_onupgradeneeded_def uploadPizza_def
                db_transaction_def run_task_def place_def emit_def)

text \<open>
  C5, as amended. \<^verbatim>\<open>saveRecord\<close> places the \<^verbatim>\<open>add\<close> request and returns at once: the
  store is not yet written. When the storage layer executes the request, the record
  is appended under the key of the generator, which no entry of the store carries.
  From then on it is durable: after a reload and a new connection, with no \<^verbatim>\<open>clear\<close>
  in between, the store is the same and the drain is the earlier records followed
  by \<open>r\<close> (exactly \<open>[r]\<close> on a store that was empty).
\<close>

theorem C5_enqueue_durable_once_executed:
  assumes "reachable s" and "db s" and "pending s = []"
  shows "let s1 = step (Submit r) s;
             s2 = step (IdbNext True) s1;
             s3 = run [Reload, OpenDone] s2
         in s1 = s\<lparr>pending := [Add r], trace := trace s @ [Placed (Add r)]\<rparr>
          \<and> store s2 = store s @ [(keygen s, r)]
          \<and> keygen s \<notin> set (map fst (store s))
          \<and> store s3 = store s2 \<and> db s3
          \<and> drain s3 = drain s @ [r]"
proof -
  let ?s1 = "step (Submit r) s"
  let ?s2 = "step (IdbNext True) ?s1"
  let ?s3 = "run [Reload, OpenDone] ?s2"
  from assms(1) have "wellformed s" by (rule reachable_wellformed)
  with assms(2) have cr: "created s" and k: "keys_ok s" by (simp_all add: wellformed_def)
  from assms(2,3) cr have s1: "?s1 = s\<lparr>pending := [Add r], trace := trace s @ [Placed (Add r)]\<rparr>"
    by (simp add: step_Submit_connected place_def emit_def del: step.simps)
  let ?s0 = "s\<lparr>trace := trace s @ [Placed (Add r)], pending := []\<rparr>"
  from s1 have s2: "?s2 = execute (Add r) ?s0"
    by (simp add: Let_def del: step.simps(5))
  from k have "keys_ok ?s0" by (simp add: keys_ok_def)
  from drain_execute_Add [OF this, of r] s2
  have d2: "drain ?s2 = drain s @ [r]" by (simp add: drain_def)
  from s2 have st2: "store ?s2 = store s @ [(keygen s, r)]" by (simp add: execute_def)
  from reopen [of ?s2] have st3: "store ?s3 = store ?s2" and db3: "db ?s3" by simp_all
  from st3 d2 have d3: "drain ?s3 = drain s @ [r]" by (simp add: drain_def)
  from s1 st2 keygen_fresh [OF k] st3 db3 d3 show ?thesis
    by (simp only: Let_def) simp
qed

text \<open>The theorem at the empty store and \<open>zesty\<close>: the drain after the reload is \<open>[zesty]\<close>.\<close>

theorem C5_enqueue_durable_once_executed_witness:
  "reachable ready \<and> db ready \<and> pending ready = [] \<and> drain ready @ [zesty] = [zesty]
   \<and> (let s1 = step (Submit zesty) ready;
             s2 = step (IdbNext True) s1;
             s3 = run [Reload, OpenDone] s2
         in s1 = ready\<lparr>pending := [Add zesty], trace := trace ready @ [Placed (Add zesty)]\<rparr>
          \<and> store s2 = store ready @ [(keygen ready, zesty)]
          \<and> keygen ready \<notin> set (map fst (store ready))
          \<and> store s3 = store s2 \<and> db s3
          \<and> drain s3 = drain ready @ [zesty])"
proof -
  have a: "reachable ready" by (rule reachable_ready)
  have b: "db ready" and c: "pending ready = []" by (simp_all add: ready_eval)
  have d: "drain ready @ [zesty] = [zesty]" by (simp add: ready_eval drain_def)
  from a b c d C5_enqueue_durable_once_executed [OF a b c, of zesty] show ?thesis by blast
qed

text \<open>
  C5 as stated fails when the page is loaded again after \<^verbatim>\<open>saveRecord\<close> has returned
  (it has placed its \<^verbatim>\<open>add\<close> and thrown nothing) and before the storage layer has
  executed the request: the drain after reopening is empty, with no \<^verbatim>\<open>clear\<close> in
  between, and nothing is submitted.
\<close>

theorem C5_counterexample:
  "trace (step (Submit zesty) ready) = trace ready @ [Placed (Add zesty)]
   \<and> pending (run [Submit zesty, Reload, OpenDone] ready) = [GetAll]
   \<and> drain (run [Submit zesty, Reload, OpenDone] ready) = []
   \<and> store (run [Submit zesty, Reload, OpenDone, IdbNext True] ready) = []
   \<and> posts (run [Submit zesty, Reload, OpenDone, IdbNext True] ready) = []"
  by (simp add: ready_eval script_defs reading_defs drain_def Let_def)

subsection \<open>One flush attempt after another\<close>




text \<open>The offline page with \<open>zesty\<close> in its store, evaluated.\<close>

lemma queued_zesty_eval:
  "queued_zesty =
     \<lparr>created = True, store = [(1, zesty)], keygen = 2, db = True, connecting = False,
      pending = [], fetches = [], online = False,
      trace = [Placed GetAll, Placed (Add zesty)]\<rparr>"
  by (simp add: queued_zesty_def ready_eval script_defs Let_def)




subsection \<open>The window between drain and clear\<close>

text \<open>
  C7. There is a run of the event loop from the first load of the page in which a
  record is saved and written after the \<^verbatim>\<open>getAll\<close> of a flush attempt has been
  executed and before its \<^verbatim>\<open>clear\<close> is: the record is not in the batch in flight,
  it is in the store when the \<^verbatim>\<open>clear\<close> is placed, the \<^verbatim>\<open>clear\<close> empties the store,
  and at the end the record is in no batch ever handed to \<^verbatim>\<open>fetch\<close>, with nothing
  in flight and nothing left to execute.
\<close>

theorem C7_data_loss_window_reachable:
  "\<exists>pre r out.
     pending (run pre init) = [GetAll]
   \<and> (let s1 = step (IdbNext True) (run pre init);
          s2 = run [Submit r, IdbNext True] s1;
          s3 = step (FetchDone 0 out) s2;
          s4 = step (IdbNext True) s3
      in fetches s1 = [drain (run pre init)]
       \<and> r \<notin> set (drain (run pre init))
       \<and> r \<in> set (drain s2)
       \<and> pending s3 = [Clear]
       \<and> r \<in> set (drain s3)
       \<and> store s4 = []
       \<and> r \<notin> set (concat (posts s4))
       \<and> fetches s4 = [] \<and> pending s4 = [])"
proof (intro exI)
  have pre: "run [OpenDone, IdbNext True, GoOffline, Submit zesty, IdbNext True, GoOnline] init
             = step GoOnline queued_zesty"
    by (simp add: queued_zesty_def ready_def del: step.simps)
  have s0: "step GoOnline queued_zesty =
     \<lparr>created = True, store = [(1, zesty)], keygen = 2, db = True, connecting = False,
      pending = [GetAll], fetches = [], online = True,
      trace = [Placed GetAll, Placed (Add zesty), Placed GetAll]\<rparr>"
    by (simp add: queued_zesty_eval script_defs Let_def)
  have ne: "late \<noteq> zesty" by (simp add: late_def zesty_def)
  show "pending (run [OpenDone, IdbNext True, GoOffline, Submit zesty, IdbNext True, GoOnline] init)
          = [GetAll]
   \<and> (let s1 = step (IdbNext True)
                  (run [OpenDone, IdbNext True, GoOffline, Submit zesty, IdbNext True, GoOnline] init);
          s2 = run [Submit late, IdbNext True] s1;
          s3 = step (FetchDone 0 zesty_created) s2;
          s4 = step (IdbNext True) s3
      in fetches s1
           = [drain (run [OpenDone, IdbNext True, GoOffline, Submit zesty, IdbNext True, GoOnline] init)]
       \<and> late \<notin> set (drain
             (run [OpenDone, IdbNext True, GoOffline, Submit zesty, IdbNext True, GoOnline] init))
       \<and> late \<in> set (drain s2)
       \<and> pending s3 = [Clear]
       \<and> late \<in> set (drain s3)
       \<and> store s4 = []
       \<and> late \<notin> set (concat (posts s4))
       \<and> fetches s4 = [] \<and> pending s4 = [])"
    unfolding pre s0
    by (simp add: ne zesty_created_def script_defs reading_defs drain_def Let_def)
qed

text \<open>The state that the interleaving \<open>saved_while_flushing\<close> leads to, evaluated.\<close>

lemma saved_while_flushing_eval:
  "run saved_while_flushing init =
     \<lparr>created = True, store = [(1, zesty), (2, late)], keygen = 3, db = True,
      connecting = False, pending = [Clear], fetches = [], online = True,
      trace = [Placed GetAll, Placed (Add zesty), Placed GetAll, Fetched [zesty],
               Placed (Add late), Placed Clear, Alerted confirmation]\<rparr>"
  by (simp add: saved_while_flushing_def zesty_created_def init_def script_defs drain_def Let_def)

text \<open>
  C2 does not hold of the script. After \<open>saved_while_flushing\<close> the store holds
  \<open>zesty\<close> and \<open>late\<close>, and the one batch submitted is \<open>[zesty]\<close>. The next step of
  the storage layer executes the \<^verbatim>\<open>clear\<close>: \<open>late\<close> is removed from the store, it was
  part of no batch, and no request or fetch is left that could submit it.
\<close>

theorem C2_unsubmitted_record_removed:
  "store (run saved_while_flushing init) = [(1, zesty), (2, late)]
   \<and> posts (run saved_while_flushing init) = [[zesty]]
   \<and> late \<notin> set (concat (posts (run saved_while_flushing init)))
   \<and> store (run (saved_while_flushing @ [IdbNext True]) init) = []
   \<and> posts (run (saved_while_flushing @ [IdbNext True]) init) = [[zesty]]
   \<and> fetches (run (saved_while_flushing @ [IdbNext True]) init) = []
   \<and> pending (run (saved_while_flushing @ [IdbNext True]) init) = []"
proof -
  have ne: "late \<noteq> zesty" by (simp add: late_def zesty_def)
  show ?thesis
    unfolding run_append saved_while_flushing_eval
    by (simp add: ne execute_def reading_defs)
qed

end
